theory Spec2Isabelle
  imports Main "HOL-Library.Sublist"
begin

section \<open>Strings of code points\<close>

text \<open>
  A Python \<open>str\<close> is a sequence of Unicode code points. The program handles CJK text,
  so a character is its code point (a natural number) and a string is a list of them.
  \<open>U\<close> writes an ASCII literal of the source as such a list.
\<close>

type_synonym pychar = nat
type_synonym pystr = "pychar list"

definition U :: "string \<Rightarrow> pystr" where
  "U cs = map of_char cs"

definition SP :: pychar where
  "SP = 32"

definition NL :: pychar where
  "NL = 10"

text \<open>
  The whitespace of \<open>str.strip()\<close>, \<open>str.isspace()\<close> and of \<open>\s\<close> in a \<open>str\<close> pattern
  is one and the same set in CPython (\<open>Py_UNICODE_ISSPACE\<close>): the code points below.
\<close>

definition is_space :: "pychar \<Rightarrow> bool" where
  "is_space c \<longleftrightarrow>
     (9 \<le> c \<and> c \<le> 13) \<or> (28 \<le> c \<and> c \<le> 32) \<or> c = 133 \<or> c = 160 \<or> c = 5760 \<or>
     (8192 \<le> c \<and> c \<le> 8202) \<or> c = 8232 \<or> c = 8233 \<or> c = 8239 \<or> c = 8287 \<or> c = 12288"

text \<open>\<open>s.strip()\<close>: leading and trailing whitespace removed.\<close>

definition lstrip :: "pystr \<Rightarrow> pystr" where
  "lstrip s = dropWhile is_space s"

definition rstrip :: "pystr \<Rightarrow> pystr" where
  "rstrip s = rev (dropWhile is_space (rev s))"

definition strip :: "pystr \<Rightarrow> pystr" where
  "strip s = rstrip (lstrip s)"

text \<open>
  \<open>s.replace(old, new)\<close>: the non-overlapping occurrences of \<open>old\<close> are replaced from
  left to right. With an empty \<open>old\<close>, Python puts \<open>new\<close> before every character and at
  the end.
\<close>

fun replace_scan :: "pystr \<Rightarrow> pystr \<Rightarrow> pystr \<Rightarrow> pystr" where
  "replace_scan old new [] = []"
| "replace_scan old new (c # cs) =
     (if prefix old (c # cs)
      then new @ replace_scan old new (drop (length old - 1) cs)
      else c # replace_scan old new cs)"

definition py_replace :: "pystr \<Rightarrow> pystr \<Rightarrow> pystr \<Rightarrow> pystr" where
  "py_replace old new s =
     (if old = [] then new @ concat (map (\<lambda>c. c # new) s) else replace_scan old new s)"

section \<open>The regular expressions of the source\<close>

text \<open>
  The two patterns of \<open>scrape_contacts\<close> use literals, \<open>\s\<close>, \<open>.\<close> under \<open>re.DOTALL\<close>,
  the greedy \<open>\s+\<close> and \<open>\s*\<close>, the lazy \<open>.*?\<close> and three capture groups around a lazy
  repeat. A pattern is the sequence of instructions that \<open>re.compile\<close> produces for them:
  one character of a class, a greedy or lazy repeat of a one-character class with its
  minimum count, and the marks that open (even) and close (odd) a group.
\<close>

datatype cls = Chr pychar | Space | Dot

datatype node = One cls | MaxRep cls nat | MinRep cls nat | Mark nat

type_synonym marks = "(nat \<times> pystr) list"

fun accepts :: "cls \<Rightarrow> pychar \<Rightarrow> bool" where
  "accepts (Chr c) x \<longleftrightarrow> x = c"
| "accepts Space x \<longleftrightarrow> is_space x"
| "accepts Dot x \<longleftrightarrow> True"

text \<open>
  The backtracking matcher: \<open>rmatch p s ms\<close> matches the instructions \<open>p\<close> at the start of
  \<open>s\<close> and returns the unmatched rest and the marks of the first successful path, in
  the order in which the engine tries them: a greedy repeat takes one more character
  before it tries what follows, a lazy repeat tries what follows first. A mark stores
  the text that is still unread where it is passed.
\<close>

fun rmatch :: "node list \<Rightarrow> pystr \<Rightarrow> marks \<Rightarrow> (pystr \<times> marks) option" where
  "rmatch [] s ms = Some (s, ms)"
| "rmatch (One c # p) [] ms = None"
| "rmatch (One c # p) (x # xs) ms = (if accepts c x then rmatch p xs ms else None)"
| "rmatch (Mark k # p) s ms = rmatch p s ((k, s) # ms)"
| "rmatch (MaxRep c (Suc n) # p) [] ms = None"
| "rmatch (MaxRep c (Suc n) # p) (x # xs) ms =
     (if accepts c x then rmatch (MaxRep c n # p) xs ms else None)"
| "rmatch (MaxRep c 0 # p) [] ms = rmatch p [] ms"
| "rmatch (MaxRep c 0 # p) (x # xs) ms =
     (if accepts c x
      then (case rmatch (MaxRep c 0 # p) xs ms of
              Some r \<Rightarrow> Some r
            | None \<Rightarrow> rmatch p (x # xs) ms)
      else rmatch p (x # xs) ms)"
| "rmatch (MinRep c (Suc n) # p) [] ms = None"
| "rmatch (MinRep c (Suc n) # p) (x # xs) ms =
     (if accepts c x then rmatch (MinRep c n # p) xs ms else None)"
| "rmatch (MinRep c 0 # p) [] ms = rmatch p [] ms"
| "rmatch (MinRep c 0 # p) (x # xs) ms =
     (case rmatch p (x # xs) ms of
        Some r \<Rightarrow> Some r
      | None \<Rightarrow> (if accepts c x then rmatch (MinRep c 0 # p) xs ms else None))"

text \<open>
  The text of group \<open>g\<close> (counted from 1): what lies between its two marks, and the
  empty string for a group that did not take part, as \<open>findall\<close> reports it.
\<close>

definition group_text :: "marks \<Rightarrow> nat \<Rightarrow> pystr" where
  "group_text ms g =
     (case (map_of ms (2 * (g - 1)), map_of ms (2 * (g - 1) + 1)) of
        (Some a, Some b) \<Rightarrow> take (length a - length b) a
      | _ \<Rightarrow> [])"

text \<open>
  \<open>pattern.findall(s)\<close> for a pattern of three groups: the non-overlapping matches from
  left to right, each as the triple of its groups. The scan resumes where a match
  ended; where nothing matches, and after a match that consumed nothing, it moves on
  by one character.
\<close>

function findall3 :: "node list \<Rightarrow> pystr \<Rightarrow> (pystr \<times> pystr \<times> pystr) list" where
  "findall3 p s =
     (case rmatch p s [] of
        None \<Rightarrow> (case s of [] \<Rightarrow> [] | x # xs \<Rightarrow> findall3 p xs)
      | Some (rest, ms) \<Rightarrow>
          (group_text ms 1, group_text ms 2, group_text ms 3) #
          (if length rest < length s then findall3 p rest
           else (case s of [] \<Rightarrow> [] | x # xs \<Rightarrow> findall3 p xs)))"
  by pat_completeness auto
termination
  by (relation "measure (\<lambda>(p, s). length s)") auto

text \<open>
  \<open>re.sub(pattern, repl, s)\<close> for a replacement without group references: every
  non-overlapping match is replaced by \<open>repl\<close>, everything else is kept.
\<close>

function re_sub :: "node list \<Rightarrow> pystr \<Rightarrow> pystr \<Rightarrow> pystr" where
  "re_sub p repl s =
     (case rmatch p s [] of
        None \<Rightarrow> (case s of [] \<Rightarrow> [] | x # xs \<Rightarrow> x # re_sub p repl xs)
      | Some (rest, ms) \<Rightarrow>
          repl @
          (if length rest < length s then re_sub p repl rest
           else (case s of [] \<Rightarrow> [] | x # xs \<Rightarrow> x # re_sub p repl xs)))"
  by pat_completeness auto
termination
  by (relation "measure (\<lambda>(p, repl, s). length s)") auto

text \<open>Pattern builders: a literal text, \<open>\s+\<close>, \<open>\s*\<close>, \<open>.*?\<close> and a group \<open>(.*?)\<close>.\<close>

definition lit :: "string \<Rightarrow> node list" where
  "lit cs = map (\<lambda>c. One (Chr (of_char c))) cs"

definition ws_plus :: "node list" where
  "ws_plus = [MaxRep Space 1]"

definition ws_star :: "node list" where
  "ws_star = [MaxRep Space 0]"

definition any_lazy :: "node list" where
  "any_lazy = [MinRep Dot 0]"

definition group_lazy :: "nat \<Rightarrow> node list" where
  "group_lazy g = [Mark (2 * (g - 1)), MinRep Dot 0, Mark (2 * (g - 1) + 1)]"

text \<open>
  The contact pattern of the source, piece by piece:
  \<^verbatim>\<open><div\s+class="member_name">.*?<a\s+href="content_teacher_detail\.php\?teacher_rkey=.*?">\<close>
  \<^verbatim>\<open>\s*(.*?)\s*</a>.*?<div\s+class="member_info_content">\s*(.*?)\s*</div>.*?\<close>
  \<^verbatim>\<open><a\s+href="mailto:(.*?)">\<close>
\<close>

definition contact_pattern :: "node list" where
  "contact_pattern =
     lit ''<div'' @ ws_plus @ lit ''class=\"member_name\">'' @ any_lazy @
     lit ''<a'' @ ws_plus @ lit ''href=\"content_teacher_detail.php?teacher_rkey='' @ any_lazy @
     lit ''\">'' @ ws_star @ group_lazy 1 @ ws_star @ lit ''</a>'' @ any_lazy @
     lit ''<div'' @ ws_plus @ lit ''class=\"member_info_content\">'' @ ws_star @
     group_lazy 2 @ ws_star @ lit ''</div>'' @ any_lazy @
     lit ''<a'' @ ws_plus @ lit ''href=\"mailto:'' @ group_lazy 3 @ lit ''\">''"

declare findall3.simps [simp del] re_sub.simps [simp del]

section \<open>The extractor: \<open>scrape_contacts\<close>\<close>

text \<open>\<open>URL\<close>, the constant of the source.\<close>

definition URL :: pystr where
  "URL = U ''https://csie.ncut.edu.tw/content.php?key=86OP82WJQO''"

text \<open>
  What \<open>requests.get\<close> can do: answer with a status code and a body, or fail with a
  \<open>RequestException\<close> whose text is given. The network is a function from the
  requested URL to that outcome. What the function does to the outside is returned as
  a list of events: the URL requested and the error boxes shown.
\<close>

datatype response = Response nat pystr | RequestException pystr

datatype event = HttpGet pystr | ShowError pystr pystr

type_synonym contact = "pystr \<times> pystr \<times> pystr"

text \<open>\<open>str(n)\<close> of a status code, for the f-string of the error box.\<close>

fun py_str_nat :: "nat \<Rightarrow> pystr" where
  "py_str_nat n = (if n < 10 then [48 + n] else py_str_nat (n div 10) @ [48 + n mod 10])"

declare py_str_nat.simps [simp del]

definition net_error_title :: pystr where
  "net_error_title = [0x7DB2, 0x8DEF, 0x932F, 0x8AA4]"

definition msg_404 :: pystr where
  "msg_404 = [0x7121, 0x6CD5, 0x53D6, 0x5F97, 0x7DB2, 0x9801, 0xFF1A] @ U ''404''"

definition msg_http :: "nat \<Rightarrow> pystr" where
  "msg_http code = U ''HTTP '' @ [0x932F, 0x8AA4, 0xFF1A] @ py_str_nat code"

definition msg_connect :: "pystr \<Rightarrow> pystr" where
  "msg_connect e = [0x7121, 0x6CD5, 0x9023, 0x63A5, 0x7DB2, 0x7AD9, 0xFF1A, NL] @ e"

text \<open>
  The loop over the matches: the name has its whitespace runs replaced by one space
  (\<open>re.sub(r'\s+', ' ', name)\<close>), the email loses every \<open>//\<close>, and the three fields are
  stripped. The title is stripped only.
\<close>

fun contacts_loop :: "contact list \<Rightarrow> contact list \<Rightarrow> contact list" where
  "contacts_loop contacts [] = contacts"
| "contacts_loop contacts ((name, title, email) # matches) =
     (let name' = re_sub ws_plus [SP] name;
          email' = py_replace (U ''//'') [] email
      in contacts_loop (contacts @ [(strip name', strip title, strip email')]) matches)"

text \<open>The part of \<open>scrape_contacts\<close> after the fetch, on the body of the response.\<close>

definition extract_contacts :: "pystr \<Rightarrow> contact list" where
  "extract_contacts html_content = contacts_loop [] (findall3 contact_pattern html_content)"

text \<open>
  \<open>scrape_contacts\<close>: \<open>raise_for_status\<close> raises for the codes 400 to 599; the handlers
  show an error box and return the empty list.
\<close>

definition scrape_contacts :: "(pystr \<Rightarrow> response) \<Rightarrow> contact list \<times> event list" where
  "scrape_contacts net =
     (case net URL of
        RequestException e \<Rightarrow> ([], [HttpGet URL, ShowError net_error_title (msg_connect e)])
      | Response status_code text \<Rightarrow>
          (if 400 \<le> status_code \<and> status_code < 600
           then (if status_code = 404
                 then ([], [HttpGet URL, ShowError net_error_title msg_404])
                 else ([], [HttpGet URL, ShowError net_error_title (msg_http status_code)]))
           else (extract_contacts text, [HttpGet URL])))"

section \<open>Display width and padding\<close>

text \<open>
  \<open>unicodedata.east_asian_width\<close> is the table of the Unicode standard, not code of this
  program: the functions take it as the parameter \<open>eaw\<close>. Its values are the six classes
  \<open>'F'\<close>, \<open>'W'\<close>, \<open>'A'\<close>, \<open>'H'\<close>, \<open>'Na'\<close>, \<open>'N'\<close>.
\<close>

datatype eaw_class = EA_F | EA_W | EA_A | EA_H | EA_Na | EA_N

definition is_wide :: "(pychar \<Rightarrow> eaw_class) \<Rightarrow> pychar \<Rightarrow> bool" where
  "is_wide eaw ch \<longleftrightarrow> eaw ch \<in> {EA_F, EA_W, EA_A}"

fun width_loop :: "(pychar \<Rightarrow> eaw_class) \<Rightarrow> pystr \<Rightarrow> int \<Rightarrow> int" where
  "width_loop eaw [] width = width"
| "width_loop eaw (ch # s) width =
     (if is_wide eaw ch then width_loop eaw s (width + 2) else width_loop eaw s (width + 1))"

definition get_display_width :: "(pychar \<Rightarrow> eaw_class) \<Rightarrow> pystr \<Rightarrow> int" where
  "get_display_width eaw s = width_loop eaw s 0"

text \<open>\<open>' ' * n\<close> is empty for a negative \<open>n\<close>; \<open>nat\<close> of a negative integer is 0.\<close>

definition pad_string :: "(pychar \<Rightarrow> eaw_class) \<Rightarrow> pystr \<Rightarrow> int \<Rightarrow> pystr" where
  "pad_string eaw s total_width =
     (let padding = total_width - get_display_width eaw s
      in s @ replicate (nat (max padding 0)) SP)"

section \<open>The table renderer: \<open>display_contacts\<close>\<close>

text \<open>
  The text widget: its state and its content. A disabled Tk text widget ignores
  \<open>insert\<close> and \<open>delete\<close>; \<open>insert(tk.END, t)\<close> appends.
\<close>

datatype wstate = Normal | Disabled

record text_widget =
  wstate :: wstate
  content :: pystr

definition configure :: "wstate \<Rightarrow> text_widget \<Rightarrow> text_widget" where
  "configure st w = w\<lparr>wstate := st\<rparr>"

definition delete_all :: "text_widget \<Rightarrow> text_widget" where
  "delete_all w = (if wstate w = Normal then w\<lparr>content := []\<rparr> else w)"

definition insert_end :: "pystr \<Rightarrow> text_widget \<Rightarrow> text_widget" where
  "insert_end t w = (if wstate w = Normal then w\<lparr>content := content w @ t\<rparr> else w)"

definition headers :: "pystr list" where
  "headers = [[0x59D3, 0x540D], [0x8077, 0x7A31], U ''Email'']"

definition widths :: "int list" where
  "widths = [12, 30, 30]"

definition DASH :: pychar where
  "DASH = 45"

definition header_line :: "(pychar \<Rightarrow> eaw_class) \<Rightarrow> pystr" where
  "header_line eaw = concat (map (\<lambda>(header, width). pad_string eaw header width) (zip headers widths))"

definition separator :: pystr where
  "separator = concat (map (\<lambda>width. replicate (nat width) DASH) widths)"

definition row_text :: "(pychar \<Rightarrow> eaw_class) \<Rightarrow> contact \<Rightarrow> pystr" where
  "row_text eaw c =
     (case c of (name, title, email) \<Rightarrow>
        concat [pad_string eaw name (widths ! 0),
                pad_string eaw title (widths ! 1),
                pad_string eaw email (widths ! 2)])"

fun rows_loop :: "(pychar \<Rightarrow> eaw_class) \<Rightarrow> contact list \<Rightarrow> text_widget \<Rightarrow> text_widget" where
  "rows_loop eaw [] w = w"
| "rows_loop eaw (c # contacts) w = rows_loop eaw contacts (insert_end (row_text eaw c @ [NL]) w)"

definition display_contacts ::
  "(pychar \<Rightarrow> eaw_class) \<Rightarrow> contact list \<Rightarrow> text_widget \<Rightarrow> text_widget" where
  "display_contacts eaw contacts contact_text =
     (let w1 = configure Normal contact_text;
          w2 = delete_all w1;
          w3 = insert_end (header_line eaw @ [NL]) w2;
          w4 = insert_end (separator @ [NL]) w3;
          w5 = rows_loop eaw contacts w4
      in configure Disabled w5)"

section \<open>The window\<close>

text \<open>
  The state of the window: the URL entry and the text area. The entry starts with
  \<open>URL\<close>; the user can edit it. The button runs
  \<open>display_contacts(scrape_contacts())\<close>.
\<close>

record gui =
  url_entry :: pystr
  contact_text :: text_widget

definition init_gui :: gui where
  "init_gui = \<lparr>url_entry = URL, contact_text = \<lparr>wstate = Disabled, content = []\<rparr>\<rparr>"

definition edit_url :: "pystr \<Rightarrow> gui \<Rightarrow> gui" where
  "edit_url t g = g\<lparr>url_entry := t\<rparr>"

definition fetch_button ::
  "(pychar \<Rightarrow> eaw_class) \<Rightarrow> (pystr \<Rightarrow> response) \<Rightarrow> gui \<Rightarrow> gui \<times> event list" where
  "fetch_button eaw net g =
     (case scrape_contacts net of
        (contacts, events) \<Rightarrow>
          (g\<lparr>contact_text := display_contacts eaw contacts (contact_text g)\<rparr>, events))"

definition fetched_urls :: "event list \<Rightarrow> pystr list" where
  "fetched_urls evs = concat (map (\<lambda>e. case e of HttpGet u \<Rightarrow> [u] | ShowError a b \<Rightarrow> []) evs)"

section \<open>The store: \<open>setup_database\<close> and \<open>save_to_database\<close>\<close>

text \<open>
  The file \<open>contacts.db\<close> holds the table \<open>contacts\<close> or does not hold it yet. A row
  has the key \<open>iid\<close>, a signed 64-bit row id that \<open>AUTOINCREMENT\<close> assigns, and the three
  text columns; the table keeps the largest row id it has given out (\<open>sqlite_sequence\<close>).
\<close>

record contact_row =
  iid :: int
  c_name :: pystr
  c_title :: pystr
  c_email :: pystr

record contacts_table =
  table_rows :: "contact_row list"
  table_seq :: int

type_synonym database = "contacts_table option"

datatype sql_error = IntegrityError | OperationalError | UnicodeEncodeError

definition setup_database :: "database \<Rightarrow> database" where
  "setup_database db =
     (case db of None \<Rightarrow> Some \<lparr>table_rows = [], table_seq = 0\<rparr> | Some t \<Rightarrow> Some t)"

text \<open>
  The new row id is one more than the larger of the last row id of the table (0 in an
  empty table) and the sequence value. When that larger value is the largest 64-bit
  integer, the \<open>INSERT\<close> fails with \<open>SQLITE_FULL\<close>, an \<open>OperationalError\<close>, before any
  constraint is looked at.
\<close>

definition MAX_ROWID :: int where
  "MAX_ROWID = 9223372036854775807"

fun last_rowid :: "contact_row list \<Rightarrow> int option" where
  "last_rowid [] = None"
| "last_rowid (r # rs) =
     (case last_rowid rs of None \<Rightarrow> Some (iid r) | Some m \<Rightarrow> Some (max (iid r) m))"

definition rowid_top :: "contacts_table \<Rightarrow> int" where
  "rowid_top t =
     (case last_rowid (table_rows t) of
        None \<Rightarrow> max 0 (table_seq t)
      | Some m \<Rightarrow> max m (table_seq t))"

text \<open>
  The step of the \<open>INSERT\<close> statement once its parameters are bound: \<open>email\<close> is
  \<open>UNIQUE\<close>, so an email that a row already has raises \<open>IntegrityError\<close> and changes
  nothing.
\<close>

definition insert_contact :: "contacts_table \<Rightarrow> contact \<Rightarrow> sql_error + contacts_table" where
  "insert_contact t c =
     (case c of (name, title, email) \<Rightarrow>
        if MAX_ROWID \<le> rowid_top t then Inl OperationalError
        else if email \<in> set (map c_email (table_rows t)) then Inl IntegrityError
        else Inr \<lparr>table_rows = table_rows t @
                     [\<lparr>iid = rowid_top t + 1, c_name = name, c_title = title, c_email = email\<rparr>],
                  table_seq = rowid_top t + 1\<rparr>)"

text \<open>
  Binding the parameters comes first. A text is bound as UTF-8, which has no encoding
  for a lone surrogate (U+D800 to U+DFFF): the bind raises \<open>UnicodeEncodeError\<close>. The
  \<open>sqlite3\<close> module then reports the error code that is pending on the connection, if
  there is one: after an \<open>INSERT\<close> that failed on the constraint, and until a parameter
  has been bound with success, a failed bind of the first parameter surfaces as
  \<open>IntegrityError\<close>. \<open>pending\<close> says that the last statement on the connection failed
  on the constraint.
\<close>

definition encodable :: "pystr \<Rightarrow> bool" where
  "encodable s \<longleftrightarrow> list_all (\<lambda>ch. ch < 0xD800 \<or> 0xDFFF < ch) s"

definition execute_insert ::
  "bool \<Rightarrow> contacts_table \<Rightarrow> contact \<Rightarrow> sql_error + contacts_table" where
  "execute_insert pending t c =
     (case c of (name, title, email) \<Rightarrow>
        if \<not> encodable name
        then (if pending then Inl IntegrityError else Inl UnicodeEncodeError)
        else if \<not> encodable title \<or> \<not> encodable email then Inl UnicodeEncodeError
        else insert_contact t c)"

text \<open>
  The loop of \<open>save_to_database\<close>: \<open>IntegrityError\<close> is caught and ignored, any other
  error leaves the function.
\<close>

fun save_loop :: "bool \<Rightarrow> contacts_table \<Rightarrow> contact list \<Rightarrow> sql_error + contacts_table" where
  "save_loop pending t [] = Inr t"
| "save_loop pending t (c # contacts) =
     (case execute_insert pending t c of
        Inl IntegrityError \<Rightarrow> save_loop True t contacts
      | Inl OperationalError \<Rightarrow> Inl OperationalError
      | Inl UnicodeEncodeError \<Rightarrow> Inl UnicodeEncodeError
      | Inr t' \<Rightarrow> save_loop False t' contacts)"

text \<open>
  \<open>save_to_database\<close> returns the exception that left it, if any, and the state of the
  file afterwards. An exception leaves before \<open>conn.commit()\<close>, so the rows inserted
  so far are rolled back and the file is as it was. In a file without the table the
  first \<open>INSERT\<close> raises \<open>OperationalError\<close>.
\<close>

definition save_to_database :: "database \<Rightarrow> contact list \<Rightarrow> sql_error option \<times> database" where
  "save_to_database db contacts =
     (case db of
        None \<Rightarrow> (if contacts = [] then (None, None) else (Some OperationalError, None))
      | Some t \<Rightarrow>
          (case save_loop False t contacts of
             Inl e \<Rightarrow> (Some e, Some t)
           | Inr t' \<Rightarrow> (None, Some t')))"

section \<open>Sample data\<close>

text \<open>
  A fragment of the Unicode East Asian width table, for the examples: the CJK unified
  ideographs U+4E00 to U+9FFF are \<open>W\<close>, the fullwidth forms U+FF01 to U+FF60 are \<open>F\<close>,
  printable ASCII is \<open>Na\<close>. Outside these ranges the fragment answers \<open>N\<close>.
\<close>

definition eaw_sample :: "pychar \<Rightarrow> eaw_class" where
  "eaw_sample c =
     (if 0x4E00 \<le> c \<and> c \<le> 0x9FFF then EA_W
      else if 0xFF01 \<le> c \<and> c \<le> 0xFF60 then EA_F
      else if 32 \<le> c \<and> c \<le> 126 then EA_Na
      else EA_N)"

text \<open>
  Records for the table: not sorted by any field, one with a wide name, the first one
  repeated at the end.
\<close>

definition table_records :: "contact list" where
  "table_records =
     [(U ''Zoe'', U ''Dean'', U ''z@x.org''),
      ([0x540D, 0x5B57], U ''Title'', U ''e@x.com''),
      (U ''Al'', U ''Prof'', U ''a@x.org''),
      (U ''Zoe'', U ''Dean'', U ''z@x.org'')]"

text \<open>An empty, disabled text area, as the window has it before the first fetch.\<close>

definition blank_text :: text_widget where
  "blank_text = \<lparr>wstate = Disabled, content = []\<rparr>"

section \<open>Vocabulary of the properties of the store\<close>

definition emails :: "contacts_table \<Rightarrow> pystr list" where
  "emails t = map c_email (table_rows t)"

definition contact_of_row :: "contact_row \<Rightarrow> contact" where
  "contact_of_row r = (c_name r, c_title r, c_email r)"

definition email_of :: "contact \<Rightarrow> pystr" where
  "email_of c = snd (snd c)"

text \<open>A record can be stored when its three fields can be encoded.\<close>

definition storable :: "contact \<Rightarrow> bool" where
  "storable c \<longleftrightarrow> encodable (fst c) \<and> encodable (fst (snd c)) \<and> encodable (snd (snd c))"

text \<open>
  The records of a sequence that a save keeps, in the words of the specification: a
  record whose email is already known is skipped, any other record is kept and makes
  its email known to the records after it.
\<close>

fun first_wins :: "pystr set \<Rightarrow> contact list \<Rightarrow> contact list" where
  "first_wins known [] = []"
| "first_wins known (c # cs) =
     (if email_of c \<in> known then first_wins known cs
      else c # first_wins (insert (email_of c) known) cs)"

text \<open>
  The store right after \<open>setup_database\<close> on a new file, the two records of the
  example, and a record whose name holds the lone surrogate U+DC80.
\<close>

definition empty_table :: contacts_table where
  "empty_table = \<lparr>table_rows = [], table_seq = 0\<rparr>"

definition example_records :: "contact list" where
  "example_records = [(U ''A'', U ''B'', U ''x@y.com''), (U ''A2'', U ''B2'', U ''x@y.com'')]"

definition surrogate_record :: contact where
  "surrogate_record = (U ''A'' @ [0xDC80], U ''B'', U ''s@y.com'')"

section \<open>Vocabulary of the properties of the extractor\<close>

text \<open>
  The Field Normalizer in the words of the specification: every maximal run of
  whitespace becomes one ASCII space, then leading and trailing whitespace goes.
\<close>

function collapse_ws :: "pystr \<Rightarrow> pystr" where
  "collapse_ws [] = []"
| "collapse_ws (c # cs) =
     (if is_space c then SP # collapse_ws (dropWhile is_space cs) else c # collapse_ws cs)"
  by pat_completeness auto
termination
  by (relation "measure length") (auto simp: length_dropWhile_le less_Suc_eq_le)

definition field_normalizer :: "pystr \<Rightarrow> pystr" where
  "field_normalizer s = strip (collapse_ws s)"

text \<open>
  A text is trimmed when it neither starts nor ends with whitespace; it is normalized
  when, moreover, its only whitespace is the ASCII space and no two spaces are
  adjacent.
\<close>

definition trimmed :: "pystr \<Rightarrow> bool" where
  "trimmed s \<longleftrightarrow> (s = [] \<or> (\<not> is_space (hd s) \<and> \<not> is_space (last s)))"

definition ws_normalized :: "pystr \<Rightarrow> bool" where
  "ws_normalized s \<longleftrightarrow>
     list_all (\<lambda>c. is_space c \<longrightarrow> c = SP) s \<and> \<not> sublist [SP, SP] s \<and> trimmed s"

text \<open>What claim C1 says of a record: its name and its title are both normalized.\<close>

definition fields_normalized :: "contact \<Rightarrow> bool" where
  "fields_normalized c \<longleftrightarrow> ws_normalized (fst c) \<and> ws_normalized (fst (snd c))"

text \<open>The body of the loop of \<open>scrape_contacts\<close> on one match.\<close>

definition clean_match :: "contact \<Rightarrow> contact" where
  "clean_match m =
     (case m of (name, title, email) \<Rightarrow>
        (strip (re_sub ws_plus [SP] name), strip title, strip (py_replace (U ''//'') [] email)))"

text \<open>A text contains a block when the pattern matches at one of its positions.\<close>

definition contains_match :: "node list \<Rightarrow> pystr \<Rightarrow> bool" where
  "contains_match p s \<longleftrightarrow> list_ex (\<lambda>t. rmatch p t [] \<noteq> None) (suffixes s)"

text \<open>
  Deleting every \<open>//\<close> in the words of claim C10: scanning from the left, two adjacent
  slashes (code point 47) are dropped wherever they stand.
\<close>

fun delete_slash_pairs :: "pystr \<Rightarrow> pystr" where
  "delete_slash_pairs [] = []"
| "delete_slash_pairs [a] = [a]"
| "delete_slash_pairs (a # b # s) =
     (if a = 47 \<and> b = 47 then delete_slash_pairs s else a # delete_slash_pairs (b # s))"

text \<open>A URL typed into the entry in place of the default.\<close>

definition other_url :: pystr where
  "other_url = U ''https://example.org/staff''"

text \<open>
  Pages for the examples. \<open>html_jane\<close> is the block of the end-to-end example of the
  specification. \<open>html_ann\<close> spreads a block over several lines, with a tab in the name
  and a newline and a tab inside the title. \<open>html_slash\<close> has \<open>//\<close> inside the local part
  and the domain of the address, a space before it and a tab and a space after it. \<open>html_broken\<close> stops before the address.
\<close>

definition html_jane :: pystr where
  "html_jane = U (''<div class=\"member_name\">'' @
     ''<a href=\"content_teacher_detail.php?teacher_rkey=1\">  Jane   Doe </a></div>'' @
     ''<div class=\"member_info_content\">Associate  Professor</div>'' @
     ''<a href=\"mailto://jane@example.edu\">'')"

definition html_ann :: pystr where
  "html_ann =
     U ''<div class=\"member_name\">'' @ [NL] @
     U ''<a href=\"content_teacher_detail.php?teacher_rkey=7\">'' @ [NL, SP] @
     U ''Ann'' @ [9, SP] @ U ''Lee'' @ [NL] @ U ''</a></div>'' @ [NL] @
     U ''<div class=\"member_info_content\"> Professor'' @ [NL, 9] @ U ''and Chair </div>'' @ [NL] @
     U ''<a href=\"mailto:ann@example.edu\">''"

definition html_slash :: pystr where
  "html_slash =
     U (''<div class=\"member_name\">'' @
        ''<a href=\"content_teacher_detail.php?teacher_rkey=3\">Bo</a></div>'' @
        ''<div class=\"member_info_content\">Lecturer</div>'' @
        ''<a href=\"mailto: b//o@ex//ample.edu'') @ [9, SP] @ U ''\">''"

definition html_broken :: pystr where
  "html_broken = U (''<div class=\"member_name\">'' @
     ''<a href=\"content_teacher_detail.php?teacher_rkey=1\">Jane</a></div>'' @
     ''<div class=\"member_info_content\">Professor'')"

section \<open>Display width\<close>

lemma width_loop_acc:
  "width_loop eaw s w = w + (\<Sum>ch\<leftarrow>s. if is_wide eaw ch then 2 else 1)"
  by (induction s arbitrary: w) auto

lemma get_display_width_sum:
  "get_display_width eaw s = (\<Sum>ch\<leftarrow>s. if is_wide eaw ch then 2 else 1)"
  by (simp add: get_display_width_def width_loop_acc)

lemma get_display_width_append:
  "get_display_width eaw (s @ t) = get_display_width eaw s + get_display_width eaw t"
  by (simp add: get_display_width_sum)

lemma get_display_width_narrow:
  "\<forall>ch\<in>set s. \<not> is_wide eaw ch \<Longrightarrow> get_display_width eaw s = int (length s)"
  by (induction s) (auto simp: get_display_width_sum)

lemma get_display_width_wide:
  "\<forall>ch\<in>set s. is_wide eaw ch \<Longrightarrow> get_display_width eaw s = 2 * int (length s)"
  by (induction s) (auto simp: get_display_width_sum)

lemma eaw_sample_ascii: "c < 128 \<Longrightarrow> eaw_sample c \<in> {EA_Na, EA_N}"
  by (simp add: eaw_sample_def)

text \<open>
  C2. For every string, \<open>get_display_width\<close> is the sum over its characters of 2 for a
  character of class F, W or A and 1 for any other. It is 0 for the empty string. On a
  string of ASCII characters it is the number of characters, the Unicode table giving
  every ASCII character the class Na or N; on a string of characters of the wide classes
  it is twice the number of characters.
\<close>

theorem display_width_sum:
  "get_display_width eaw s = (\<Sum>ch\<leftarrow>s. if eaw ch \<in> {EA_F, EA_W, EA_A} then 2 else 1)
   \<and> get_display_width eaw [] = 0
   \<and> ((\<forall>c<128. eaw c \<in> {EA_Na, EA_N}) \<longrightarrow> (\<forall>ch\<in>set s. ch < 128) \<longrightarrow>
        get_display_width eaw s = int (length s))
   \<and> ((\<forall>ch\<in>set s. eaw ch \<in> {EA_F, EA_W, EA_A}) \<longrightarrow>
        get_display_width eaw s = 2 * int (length s))"
proof (intro conjI impI)
  show "get_display_width eaw s = (\<Sum>ch\<leftarrow>s. if eaw ch \<in> {EA_F, EA_W, EA_A} then 2 else 1)"
    using get_display_width_sum [of eaw s] by (simp add: is_wide_def)
  show "get_display_width eaw [] = 0"
    by (simp add: get_display_width_def)
next
  assume tab: "\<forall>c<128. eaw c \<in> {EA_Na, EA_N}" and asc: "\<forall>ch\<in>set s. ch < 128"
  have "\<forall>ch\<in>set s. \<not> is_wide eaw ch"
  proof
    fix ch assume "ch \<in> set s"
    with asc have "ch < 128" by blast
    with tab have "eaw ch \<in> {EA_Na, EA_N}" by blast
    then show "\<not> is_wide eaw ch" by (auto simp: is_wide_def)
  qed
  then show "get_display_width eaw s = int (length s)"
    by (rule get_display_width_narrow)
next
  assume "\<forall>ch\<in>set s. eaw ch \<in> {EA_F, EA_W, EA_A}"
  then have "\<forall>ch\<in>set s. is_wide eaw ch" by (simp add: is_wide_def)
  then show "get_display_width eaw s = 2 * int (length s)"
    by (rule get_display_width_wide)
qed

theorem display_width_sum_witness:
  "get_display_width eaw_sample (U ''Email'') = 5
   \<and> get_display_width eaw_sample [0x540D, 0x5B57] = 4
   \<and> get_display_width eaw_sample [] = 0"
proof -
  have a: "\<forall>c<128. eaw_sample c \<in> {EA_Na, EA_N}"
    using eaw_sample_ascii by blast
  have b: "\<forall>ch\<in>set (U ''Email''). ch < 128"
    by (simp add: U_def)
  have c: "\<forall>ch\<in>set [0x540D, 0x5B57]. eaw_sample ch \<in> {EA_F, EA_W, EA_A}"
    by (simp add: eaw_sample_def)
  have "get_display_width eaw_sample (U ''Email'') = int (length (U ''Email''))"
    using display_width_sum [of eaw_sample "U ''Email''"] a b by blast
  moreover have "get_display_width eaw_sample [0x540D, 0x5B57] = 2 * int (length [0x540D, 0x5B57 :: nat])"
    using display_width_sum [of eaw_sample "[0x540D, 0x5B57]"] c by blast
  moreover have "get_display_width eaw_sample [] = 0"
    using display_width_sum [of eaw_sample "[]"] by blast
  ultimately show ?thesis by (simp add: U_def)
qed

section \<open>Padding\<close>

lemma pad_string_eq:
  "pad_string eaw s w = s @ replicate (nat (w - get_display_width eaw s)) SP"
  by (simp add: pad_string_def Let_def max_def)

lemma width_spaces:
  "\<not> is_wide eaw SP \<Longrightarrow> get_display_width eaw (replicate n SP) = int n"
  by (induction n) (auto simp: get_display_width_sum)

text \<open>
  C6. \<open>pad_string s w\<close> is \<open>s\<close> followed by \<open>w - width s\<close> spaces (none when that is
  negative), so \<open>s\<close> is always a prefix of the result and is never cut. When the width
  of \<open>s\<close> is \<open>w\<close> or more the result is \<open>s\<close> itself. When it is at most \<open>w\<close>, the result
  has display width exactly \<open>w\<close>, the space being a narrow character in the Unicode
  table.
\<close>

theorem pad_string_spec:
  "pad_string eaw s w = s @ replicate (nat (w - get_display_width eaw s)) SP
   \<and> prefix s (pad_string eaw s w)
   \<and> (w \<le> get_display_width eaw s \<longrightarrow> pad_string eaw s w = s)
   \<and> (eaw SP \<in> {EA_Na, EA_N, EA_H} \<longrightarrow> get_display_width eaw s \<le> w \<longrightarrow>
        get_display_width eaw (pad_string eaw s w) = w)"
proof (intro conjI impI)
  show "pad_string eaw s w = s @ replicate (nat (w - get_display_width eaw s)) SP"
    by (rule pad_string_eq)
  show "prefix s (pad_string eaw s w)"
    by (simp add: pad_string_eq)
next
  assume "w \<le> get_display_width eaw s"
  then show "pad_string eaw s w = s" by (simp add: pad_string_eq)
next
  assume sp: "eaw SP \<in> {EA_Na, EA_N, EA_H}" and le: "get_display_width eaw s \<le> w"
  from sp have "\<not> is_wide eaw SP" by (auto simp: is_wide_def)
  then show "get_display_width eaw (pad_string eaw s w) = w"
    using le by (simp add: pad_string_eq get_display_width_append width_spaces)
qed

theorem pad_string_spec_witness:
  "eaw_sample SP \<in> {EA_Na, EA_N, EA_H}
   \<and> get_display_width eaw_sample [0x540D, 0x5B57] \<le> 12
   \<and> pad_string eaw_sample [0x540D, 0x5B57] 12 = [0x540D, 0x5B57] @ replicate 8 SP
   \<and> get_display_width eaw_sample (pad_string eaw_sample [0x540D, 0x5B57] 12) = 12
   \<and> 3 \<le> get_display_width eaw_sample [0x540D, 0x5B57]
   \<and> pad_string eaw_sample [0x540D, 0x5B57] 3 = [0x540D, 0x5B57]"
proof -
  have w: "get_display_width eaw_sample [0x540D, 0x5B57] = 4"
    by (simp add: get_display_width_def eaw_sample_def is_wide_def)
  have sp: "eaw_sample SP \<in> {EA_Na, EA_N, EA_H}"
    by (simp add: eaw_sample_def SP_def)
  have le: "get_display_width eaw_sample [0x540D, 0x5B57] \<le> 12"
    using w by simp
  have ge: "3 \<le> get_display_width eaw_sample [0x540D, 0x5B57]"
    using w by simp
  note wide = pad_string_spec [of eaw_sample "[0x540D, 0x5B57]" 12]
  note narrow = pad_string_spec [of eaw_sample "[0x540D, 0x5B57]" 3]
  from wide have "pad_string eaw_sample [0x540D, 0x5B57] 12 =
      [0x540D, 0x5B57] @ replicate (nat (12 - get_display_width eaw_sample [0x540D, 0x5B57])) SP"
    by blast
  then have e1: "pad_string eaw_sample [0x540D, 0x5B57] 12 = [0x540D, 0x5B57] @ replicate 8 SP"
    by (simp add: w)
  from wide sp le
  have e2: "get_display_width eaw_sample (pad_string eaw_sample [0x540D, 0x5B57] 12) = 12"
    by blast
  from narrow ge have e3: "pad_string eaw_sample [0x540D, 0x5B57] 3 = [0x540D, 0x5B57]"
    by blast
  from sp le e1 e2 ge e3 show ?thesis by blast
qed

section \<open>The rendered table\<close>

lemma content_rows_loop:
  "wstate w = Normal \<Longrightarrow>
   content (rows_loop eaw contacts w) = content w @ concat (map (\<lambda>c. row_text eaw c @ [NL]) contacts)
   \<and> wstate (rows_loop eaw contacts w) = Normal"
  by (induction contacts arbitrary: w) (simp_all add: insert_end_def)

lemma display_contacts_content:
  "content (display_contacts eaw contacts w) =
     header_line eaw @ [NL] @ separator @ [NL] @ concat (map (\<lambda>c. row_text eaw c @ [NL]) contacts)"
  by (simp add: display_contacts_def Let_def configure_def delete_all_def insert_end_def
      content_rows_loop)

lemma separator_dashes: "separator = replicate 72 DASH"
  by (simp add: separator_def widths_def replicate_add [symmetric])

lemma name_width:
  "eaw 0x540D = EA_W \<Longrightarrow> eaw 0x5B57 = EA_W \<Longrightarrow> get_display_width eaw [0x540D, 0x5B57] = 4"
  by (simp add: get_display_width_def is_wide_def)

lemma header_line_cells:
  "header_line eaw =
     pad_string eaw [0x59D3, 0x540D] 12 @ pad_string eaw [0x8077, 0x7A31] 30 @
     pad_string eaw (U ''Email'') 30"
  by (simp add: header_line_def headers_def widths_def)

lemma row_text_cells:
  "row_text eaw (name, title, email) =
     pad_string eaw name 12 @ pad_string eaw title 30 @ pad_string eaw email 30"
  by (simp add: row_text_def widths_def)

lemma rows_cells:
  "map (\<lambda>c. row_text eaw c @ [NL]) contacts =
   map (\<lambda>(name, title, email).
          name @ replicate (nat (12 - get_display_width eaw name)) SP @
          title @ replicate (nat (30 - get_display_width eaw title)) SP @
          email @ replicate (nat (30 - get_display_width eaw email)) SP @ [NL]) contacts"
  by (rule map_cong) (auto simp: row_text_cells pad_string_eq)

text \<open>
  C8. Whatever the text area held and whatever its state, after \<open>display_contacts\<close> it
  holds the header line (the three column titles, each padded to its column), the
  separator line of 72 dashes, and then one line for each record, in the order of the
  input: the name, the title and the email of that record, each followed by the spaces
  that fill its column of 12, 30 and 30, and a newline. Every record has its line, none
  is dropped, merged or moved, and the area is left disabled.
\<close>

theorem display_rows_in_order:
  "content (display_contacts eaw contacts w) =
     ([0x59D3, 0x540D] @ replicate (nat (12 - get_display_width eaw [0x59D3, 0x540D])) SP @
      [0x8077, 0x7A31] @ replicate (nat (30 - get_display_width eaw [0x8077, 0x7A31])) SP @
      U ''Email'' @ replicate (nat (30 - get_display_width eaw (U ''Email''))) SP @ [NL]) @
     (replicate 72 DASH @ [NL]) @
     concat (map (\<lambda>(name, title, email).
                    name @ replicate (nat (12 - get_display_width eaw name)) SP @
                    title @ replicate (nat (30 - get_display_width eaw title)) SP @
                    email @ replicate (nat (30 - get_display_width eaw email)) SP @ [NL])
                 contacts)
   \<and> wstate (display_contacts eaw contacts w) = Disabled"
proof
  show "content (display_contacts eaw contacts w) =
     ([0x59D3, 0x540D] @ replicate (nat (12 - get_display_width eaw [0x59D3, 0x540D])) SP @
      [0x8077, 0x7A31] @ replicate (nat (30 - get_display_width eaw [0x8077, 0x7A31])) SP @
      U ''Email'' @ replicate (nat (30 - get_display_width eaw (U ''Email''))) SP @ [NL]) @
     (replicate 72 DASH @ [NL]) @
     concat (map (\<lambda>(name, title, email).
                    name @ replicate (nat (12 - get_display_width eaw name)) SP @
                    title @ replicate (nat (30 - get_display_width eaw title)) SP @
                    email @ replicate (nat (30 - get_display_width eaw email)) SP @ [NL])
                 contacts)"
    unfolding display_contacts_content rows_cells header_line_cells separator_dashes pad_string_eq
    by simp
  show "wstate (display_contacts eaw contacts w) = Disabled"
    by (simp add: display_contacts_def Let_def configure_def)
qed

theorem display_rows_in_order_witness:
  "content (display_contacts eaw_sample table_records blank_text) =
     [0x59D3, 0x540D] @ replicate 8 SP @ [0x8077, 0x7A31] @ replicate 26 SP @
       U ''Email'' @ replicate 25 SP @ [NL] @
     replicate 72 DASH @ [NL] @
     U ''Zoe'' @ replicate 9 SP @ U ''Dean'' @ replicate 26 SP @ U ''z@x.org'' @ replicate 23 SP @ [NL] @
     [0x540D, 0x5B57] @ replicate 8 SP @ U ''Title'' @ replicate 25 SP @ U ''e@x.com'' @ replicate 23 SP @ [NL] @
     U ''Al'' @ replicate 10 SP @ U ''Prof'' @ replicate 26 SP @ U ''a@x.org'' @ replicate 23 SP @ [NL] @
     U ''Zoe'' @ replicate 9 SP @ U ''Dean'' @ replicate 26 SP @ U ''z@x.org'' @ replicate 23 SP @ [NL]"
proof -
  have w: "get_display_width eaw_sample [0x59D3, 0x540D] = 4"
    "get_display_width eaw_sample [0x8077, 0x7A31] = 4"
    "get_display_width eaw_sample [0x540D, 0x5B57] = 4"
    "get_display_width eaw_sample (U ''Email'') = 5"
    "get_display_width eaw_sample (U ''Title'') = 5"
    "get_display_width eaw_sample (U ''Zoe'') = 3"
    "get_display_width eaw_sample (U ''Dean'') = 4"
    "get_display_width eaw_sample (U ''Prof'') = 4"
    "get_display_width eaw_sample (U ''Al'') = 2"
    "get_display_width eaw_sample (U ''z@x.org'') = 7"
    "get_display_width eaw_sample (U ''e@x.com'') = 7"
    "get_display_width eaw_sample (U ''a@x.org'') = 7"
    by (simp_all add: get_display_width_def eaw_sample_def is_wide_def U_def)
  from display_rows_in_order [of eaw_sample table_records blank_text]
  show ?thesis
    by (simp add: table_records_def w)
qed

text \<open>
  C5, as the code has it. The two characters of the name U+540D U+5B57 are of class W in
  the Unicode table, so the name is 4 columns wide and its cell of 12 columns is the
  name followed by 8 spaces, not 10. The text is the header line, a separator of 72
  dashes and the one data line.
\<close>

theorem render_example:
  assumes "eaw 0x540D = EA_W" and "eaw 0x5B57 = EA_W"
  shows "content (display_contacts eaw [([0x540D, 0x5B57], U ''Title'', U ''e@x.com'')] w) =
           header_line eaw @ [NL] @ replicate 72 DASH @ [NL] @
           ([0x540D, 0x5B57] @ replicate 8 SP) @
           pad_string eaw (U ''Title'') 30 @ pad_string eaw (U ''e@x.com'') 30 @ [NL]"
  using name_width [OF assms]
  by (simp add: display_contacts_content separator_dashes row_text_def widths_def pad_string_eq)

theorem render_example_witness:
  "eaw_sample 0x540D = EA_W \<and> eaw_sample 0x5B57 = EA_W \<and>
   content (display_contacts eaw_sample [([0x540D, 0x5B57], U ''Title'', U ''e@x.com'')] blank_text) =
     header_line eaw_sample @ [NL] @ replicate 72 DASH @ [NL] @
     ([0x540D, 0x5B57] @ replicate 8 SP) @
     pad_string eaw_sample (U ''Title'') 30 @ pad_string eaw_sample (U ''e@x.com'') 30 @ [NL]"
proof -
  have a: "eaw_sample 0x540D = EA_W" and b: "eaw_sample 0x5B57 = EA_W"
    by (simp_all add: eaw_sample_def)
  from a b render_example [OF a b, of blank_text] show ?thesis by blast
qed

text \<open>
  The claim as written, with 10 spaces after the name, fails on the same record: the
  text it describes is two characters longer than the text the code produces.
\<close>

theorem render_example_counterexample:
  "content (display_contacts eaw_sample [([0x540D, 0x5B57], U ''Title'', U ''e@x.com'')] blank_text) \<noteq>
     header_line eaw_sample @ [NL] @ replicate 72 DASH @ [NL] @
     ([0x540D, 0x5B57] @ replicate 10 SP) @
     pad_string eaw_sample (U ''Title'') 30 @ pad_string eaw_sample (U ''e@x.com'') 30 @ [NL]"
proof
  assume "content (display_contacts eaw_sample [([0x540D, 0x5B57], U ''Title'', U ''e@x.com'')] blank_text) =
     header_line eaw_sample @ [NL] @ replicate 72 DASH @ [NL] @
     ([0x540D, 0x5B57] @ replicate 10 SP) @
     pad_string eaw_sample (U ''Title'') 30 @ pad_string eaw_sample (U ''e@x.com'') 30 @ [NL]"
  then have "length (content (display_contacts eaw_sample
        [([0x540D, 0x5B57], U ''Title'', U ''e@x.com'')] blank_text)) =
     length (header_line eaw_sample @ [NL] @ replicate 72 DASH @ [NL] @
       ([0x540D, 0x5B57] @ replicate 10 SP) @
       pad_string eaw_sample (U ''Title'') 30 @ pad_string eaw_sample (U ''e@x.com'') 30 @ [NL])"
    by (rule arg_cong)
  moreover have "get_display_width eaw_sample [0x540D, 0x5B57] = 4"
    by (simp add: name_width eaw_sample_def)
  ultimately show False
    by (simp add: display_contacts_content separator_dashes row_text_def widths_def
        pad_string_eq [of eaw_sample "[0x540D, 0x5B57]"])
qed

section \<open>The store\<close>

lemma last_rowid_snoc:
  "last_rowid (rs @ [r]) =
     Some (case last_rowid rs of None \<Rightarrow> iid r | Some m \<Rightarrow> max m (iid r))"
  by (induction rs) (auto split: option.splits)

lemma execute_insert_cases:
  assumes "storable c" and "rowid_top t < MAX_ROWID"
  shows "execute_insert pending t c =
     (if email_of c \<in> set (emails t) then Inl IntegrityError
      else Inr \<lparr>table_rows = table_rows t @
                  [\<lparr>iid = rowid_top t + 1, c_name = fst c, c_title = fst (snd c),
                    c_email = email_of c\<rparr>],
                table_seq = rowid_top t + 1\<rparr>)"
  using assms
  by (cases c) (simp add: execute_insert_def insert_contact_def storable_def emails_def email_of_def)

lemma rowid_top_inserted:
  "rowid_top \<lparr>table_rows = table_rows t @ [\<lparr>iid = rowid_top t + 1, c_name = n, c_title = ti,
       c_email = e\<rparr>], table_seq = rowid_top t + 1\<rparr> = rowid_top t + 1"
  by (simp add: rowid_top_def last_rowid_snoc split: option.splits)

lemma save_loop_result:
  assumes "list_all storable cs" and "rowid_top t + int (length cs) < MAX_ROWID"
  shows "\<exists>t'. save_loop pending t cs = Inr t'
     \<and> map contact_of_row (table_rows t') =
         map contact_of_row (table_rows t) @ first_wins (set (emails t)) cs
     \<and> prefix (table_rows t) (table_rows t')
     \<and> (distinct (emails t) \<longrightarrow> distinct (emails t'))
     \<and> set (emails t') = set (emails t) \<union> email_of ` set cs
     \<and> rowid_top t' \<le> rowid_top t + int (length cs)"
  using assms
proof (induction cs arbitrary: t pending)
  case Nil
  then show ?case by simp
next
  case (Cons c cs)
  from Cons.prems have st: "storable c" and rest: "list_all storable cs"
    and top: "rowid_top t < MAX_ROWID"
    by simp_all
  show ?case
  proof (cases "email_of c \<in> set (emails t)")
    case True
    from Cons.prems have room: "rowid_top t + int (length cs) < MAX_ROWID" by simp
    from Cons.IH [OF rest room, of True] obtain t' where
      s: "save_loop True t cs = Inr t'"
      and r: "map contact_of_row (table_rows t') =
          map contact_of_row (table_rows t) @ first_wins (set (emails t)) cs"
      and p: "prefix (table_rows t) (table_rows t')"
      and d: "distinct (emails t) \<longrightarrow> distinct (emails t')"
      and e: "set (emails t') = set (emails t) \<union> email_of ` set cs"
      and b: "rowid_top t' \<le> rowid_top t + int (length cs)"
      by blast
    from True s have "save_loop pending t (c # cs) = Inr t'"
      by (simp add: execute_insert_cases [OF st top])
    moreover from True e have "set (emails t') = set (emails t) \<union> email_of ` set (c # cs)"
      by auto
    moreover from b have "rowid_top t' \<le> rowid_top t + int (length (c # cs))"
      by simp
    ultimately show ?thesis using True r p d by auto
  next
    case False
    define t1 where "t1 = \<lparr>table_rows = table_rows t @
        [\<lparr>iid = rowid_top t + 1, c_name = fst c, c_title = fst (snd c), c_email = email_of c\<rparr>],
        table_seq = rowid_top t + 1\<rparr>"
    have top1: "rowid_top t1 = rowid_top t + 1"
      unfolding t1_def by (rule rowid_top_inserted)
    have em1: "emails t1 = emails t @ [email_of c]"
      by (simp add: t1_def emails_def)
    have rows1: "table_rows t1 = table_rows t @
        [\<lparr>iid = rowid_top t + 1, c_name = fst c, c_title = fst (snd c), c_email = email_of c\<rparr>]"
      by (simp add: t1_def)
    from Cons.prems top1 have room: "rowid_top t1 + int (length cs) < MAX_ROWID" by simp
    from Cons.IH [OF rest room, of False] obtain t' where
      s: "save_loop False t1 cs = Inr t'"
      and r: "map contact_of_row (table_rows t') =
          map contact_of_row (table_rows t1) @ first_wins (set (emails t1)) cs"
      and p: "prefix (table_rows t1) (table_rows t')"
      and d: "distinct (emails t1) \<longrightarrow> distinct (emails t')"
      and e: "set (emails t') = set (emails t1) \<union> email_of ` set cs"
      and b: "rowid_top t' \<le> rowid_top t1 + int (length cs)"
      by blast
    from False s have run: "save_loop pending t (c # cs) = Inr t'"
      by (simp add: execute_insert_cases [OF st top] t1_def)
    have row_c: "contact_of_row \<lparr>iid = rowid_top t + 1, c_name = fst c, c_title = fst (snd c),
        c_email = email_of c\<rparr> = c"
      by (simp add: contact_of_row_def email_of_def)
    from r False have r': "map contact_of_row (table_rows t') =
        map contact_of_row (table_rows t) @ first_wins (set (emails t)) (c # cs)"
      by (simp add: rows1 em1 row_c)
    from p have p': "prefix (table_rows t) (table_rows t')"
      unfolding rows1 by (rule append_prefixD)
    from d False have d': "distinct (emails t) \<longrightarrow> distinct (emails t')"
      by (simp add: em1)
    from e have e': "set (emails t') = set (emails t) \<union> email_of ` set (c # cs)"
      by (auto simp: em1)
    from b top1 have b': "rowid_top t' \<le> rowid_top t + int (length (c # cs))"
      by simp
    from run r' p' d' e' b' show ?thesis by blast
  qed
qed

lemma save_loop_known:
  "list_all storable cs \<Longrightarrow> rowid_top t < MAX_ROWID \<Longrightarrow>
   email_of ` set cs \<subseteq> set (emails t) \<Longrightarrow> save_loop pending t cs = Inr t"
  by (induction cs arbitrary: pending) (simp_all add: execute_insert_cases)

lemma one_row_per_email:
  "distinct (map f rs) \<Longrightarrow> e \<in> set (map f rs) \<Longrightarrow> length (filter (\<lambda>r. f r = e) rs) = 1"
proof (induction rs)
  case Nil
  then show ?case by simp
next
  case (Cons r rs)
  show ?case
  proof (cases "f r = e")
    case True
    with Cons.prems have "e \<notin> f ` set rs" by auto
    then have "filter (\<lambda>r. f r = e) rs = []" by (auto simp: filter_empty_conv)
    with True show ?thesis by simp
  next
    case False
    with Cons show ?thesis by auto
  qed
qed

lemma example_storable: "list_all storable example_records"
  by (simp add: example_records_def storable_def encodable_def U_def)

lemma empty_table_top: "rowid_top empty_table = 0"
  by (simp add: rowid_top_def empty_table_def)

lemma save_example:
  "save_to_database (Some empty_table) example_records =
     (None, Some \<lparr>table_rows =
                    [\<lparr>iid = 1, c_name = U ''A'', c_title = U ''B'', c_email = U ''x@y.com''\<rparr>],
                  table_seq = 1\<rparr>)"
  by (simp add: save_to_database_def example_records_def empty_table_def execute_insert_def
      insert_contact_def rowid_top_def MAX_ROWID_def encodable_def U_def)

text \<open>
  A record with a lone surrogate in its name, first in the sequence, leaves
  \<open>save_to_database\<close> with \<open>UnicodeEncodeError\<close> and the file as it was; right after
  a record that failed on the constraint it is skipped like a duplicate.
\<close>

lemma save_surrogate_first:
  "save_to_database (Some empty_table) (surrogate_record # example_records) =
     (Some UnicodeEncodeError, Some empty_table)"
  by (simp add: save_to_database_def surrogate_record_def execute_insert_def encodable_def U_def)

lemma save_surrogate_after_duplicate:
  "save_to_database (Some empty_table) (example_records @ [surrogate_record]) =
     (None, Some \<lparr>table_rows =
                    [\<lparr>iid = 1, c_name = U ''A'', c_title = U ''B'', c_email = U ''x@y.com''\<rparr>],
                  table_seq = 1\<rparr>)"
  by (simp add: save_to_database_def example_records_def surrogate_record_def empty_table_def
      execute_insert_def insert_contact_def rowid_top_def MAX_ROWID_def encodable_def U_def)

text \<open>
  C3. Take a table whose emails are distinct, as \<open>UNIQUE\<close> keeps them, and whose row
  ids leave room for the sequence, and records whose fields can be encoded as UTF-8
  (no lone surrogate). Then \<open>save_to_database\<close> returns without an exception. The rows
  the table had are still there, unchanged and in place; the rows added are the
  records that \<open>first_wins\<close> keeps, in order: a record whose email is in the table or
  came earlier in the sequence adds nothing. The emails stay distinct, every email of
  the sequence has exactly one row, and saving the same sequence again changes
  nothing. Saving the two records of the example into the empty table leaves the one
  row of the first record.
\<close>

theorem save_first_write_wins:
  assumes "distinct (emails t)"
    and "list_all storable cs"
    and "rowid_top t + int (length cs) < MAX_ROWID"
  shows "\<exists>t'. save_to_database (Some t) cs = (None, Some t')
     \<and> map contact_of_row (table_rows t') =
         map contact_of_row (table_rows t) @ first_wins (set (emails t)) cs
     \<and> prefix (table_rows t) (table_rows t')
     \<and> distinct (emails t')
     \<and> set (emails t') = set (emails t) \<union> email_of ` set cs
     \<and> (\<forall>c\<in>set cs. length (filter (\<lambda>r. c_email r = email_of c) (table_rows t')) = 1)
     \<and> save_to_database (Some t') cs = (None, Some t')
     \<and> save_to_database (Some empty_table) example_records =
         (None, Some \<lparr>table_rows =
                        [\<lparr>iid = 1, c_name = U ''A'', c_title = U ''B'', c_email = U ''x@y.com''\<rparr>],
                      table_seq = 1\<rparr>)"
proof -
  from save_loop_result [OF assms(2,3), of False] obtain t' where
    s: "save_loop False t cs = Inr t'"
    and r: "map contact_of_row (table_rows t') =
        map contact_of_row (table_rows t) @ first_wins (set (emails t)) cs"
    and p: "prefix (table_rows t) (table_rows t')"
    and d0: "distinct (emails t) \<longrightarrow> distinct (emails t')"
    and e: "set (emails t') = set (emails t) \<union> email_of ` set cs"
    and b: "rowid_top t' \<le> rowid_top t + int (length cs)"
    by blast
  from d0 assms(1) have d: "distinct (emails t')" by simp
  have one: "\<forall>c\<in>set cs. length (filter (\<lambda>r. c_email r = email_of c) (table_rows t')) = 1"
  proof
    fix c assume "c \<in> set cs"
    with e have "email_of c \<in> set (map c_email (table_rows t'))"
      by (auto simp: emails_def)
    with d show "length (filter (\<lambda>r. c_email r = email_of c) (table_rows t')) = 1"
      unfolding emails_def by (rule one_row_per_email)
  qed
  from b assms(3) have top': "rowid_top t' < MAX_ROWID" by simp
  have again: "save_loop False t' cs = Inr t'"
    using assms(2) top' e by (intro save_loop_known) auto
  from s again r p d e one
  have "save_to_database (Some t) cs = (None, Some t')
     \<and> map contact_of_row (table_rows t') =
         map contact_of_row (table_rows t) @ first_wins (set (emails t)) cs
     \<and> prefix (table_rows t) (table_rows t')
     \<and> distinct (emails t')
     \<and> set (emails t') = set (emails t) \<union> email_of ` set cs
     \<and> (\<forall>c\<in>set cs. length (filter (\<lambda>r. c_email r = email_of c) (table_rows t')) = 1)
     \<and> save_to_database (Some t') cs = (None, Some t')"
    by (simp add: save_to_database_def)
  with save_example show ?thesis by blast
qed

theorem save_first_write_wins_witness:
  "save_to_database (Some empty_table) example_records =
     (None, Some \<lparr>table_rows =
                    [\<lparr>iid = 1, c_name = U ''A'', c_title = U ''B'', c_email = U ''x@y.com''\<rparr>],
                  table_seq = 1\<rparr>)
   \<and> save_to_database
       (Some \<lparr>table_rows =
                [\<lparr>iid = 1, c_name = U ''A'', c_title = U ''B'', c_email = U ''x@y.com''\<rparr>],
              table_seq = 1\<rparr>) example_records =
     (None, Some \<lparr>table_rows =
                    [\<lparr>iid = 1, c_name = U ''A'', c_title = U ''B'', c_email = U ''x@y.com''\<rparr>],
                  table_seq = 1\<rparr>)"
proof -
  have d: "distinct (emails empty_table)"
    by (simp add: emails_def empty_table_def)
  have room: "rowid_top empty_table + int (length example_records) < MAX_ROWID"
    by (simp add: empty_table_top example_records_def MAX_ROWID_def)
  from save_first_write_wins [OF d example_storable room] obtain t' where
    "save_to_database (Some empty_table) example_records = (None, Some t')"
    and "save_to_database (Some t') example_records = (None, Some t')"
    by blast
  with save_example show ?thesis by simp
qed

section \<open>The field normalizer in the code\<close>

lemma is_space_SP: "is_space SP"
  by (simp add: is_space_def SP_def)

lemma contacts_loop_map: "contacts_loop acc ms = acc @ map clean_match ms"
  by (induction ms arbitrary: acc) (auto simp: clean_match_def Let_def)

lemma extract_contacts_map:
  "extract_contacts html = map clean_match (findall3 contact_pattern html)"
  by (simp add: extract_contacts_def contacts_loop_map)

lemma rmatch_ws_star: "rmatch [MaxRep Space 0] s ms = Some (dropWhile is_space s, ms)"
  by (induction s) simp_all

lemma rmatch_ws_plus:
  "rmatch ws_plus s ms =
     (case s of [] \<Rightarrow> None
      | x # xs \<Rightarrow> if is_space x then Some (dropWhile is_space xs, ms) else None)"
  by (cases s) (simp_all add: ws_plus_def rmatch_ws_star)

lemma re_sub_collapse: "re_sub ws_plus [SP] s = collapse_ws s"
proof (induction s rule: collapse_ws.induct)
  case 1
  show ?case by (subst re_sub.simps) (simp add: rmatch_ws_plus)
next
  case (2 c cs)
  show ?case
  proof (cases "is_space c")
    case True
    have "length (dropWhile is_space cs) < Suc (length cs)"
      by (simp add: length_dropWhile_le less_Suc_eq_le)
    with True 2 show ?thesis
      by (subst re_sub.simps) (simp add: rmatch_ws_plus)
  next
    case False
    with 2 show ?thesis
      by (subst re_sub.simps) (simp add: rmatch_ws_plus)
  qed
qed

lemma clean_match_name: "fst (clean_match m) = field_normalizer (fst m)"
  by (cases m) (simp add: clean_match_def field_normalizer_def re_sub_collapse)

lemma clean_match_title: "fst (snd (clean_match m)) = strip (fst (snd m))"
  by (cases m) (simp add: clean_match_def)

lemma collapse_ws_spaces: "list_all (\<lambda>c. is_space c \<longrightarrow> c = SP) (collapse_ws s)"
  by (induction s rule: collapse_ws.induct) auto

lemma collapse_ws_head:
  "collapse_ws s = y # ys \<Longrightarrow> \<exists>x xs. s = x # xs \<and> (if is_space x then y = SP else y = x)"
  by (cases s) (auto split: if_splits)

lemma collapse_ws_single: "\<not> sublist [SP, SP] (collapse_ws s)"
proof (induction s rule: collapse_ws.induct)
  case 1
  show ?case by simp
next
  case (2 c cs)
  show ?case
  proof (cases "is_space c")
    case True
    have "\<not> prefix [SP] (collapse_ws (dropWhile is_space cs))"
    proof
      assume "prefix [SP] (collapse_ws (dropWhile is_space cs))"
      then obtain ys where ys: "collapse_ws (dropWhile is_space cs) = SP # ys"
        by (auto simp: prefix_def)
      from collapse_ws_head [OF ys] obtain x xs where
        d: "dropWhile is_space cs = x # xs" and h: "if is_space x then SP = SP else SP = x"
        by blast
      from d have "\<not> is_space x"
        using hd_dropWhile [of is_space cs] by simp
      with h is_space_SP show False by simp
    qed
    with True 2 show ?thesis
      by (simp add: sublist_Cons_right)
  next
    case False
    with is_space_SP have "c \<noteq> SP" by auto
    with False 2 show ?thesis
      by (simp add: sublist_Cons_right)
  qed
qed

lemma rstrip_prefix: "prefix (rstrip s) s"
proof -
  have "rev s = takeWhile is_space (rev s) @ dropWhile is_space (rev s)" by simp
  then have "s = rev (dropWhile is_space (rev s)) @ rev (takeWhile is_space (rev s))"
    by (metis rev_append rev_rev_ident)
  then show ?thesis unfolding rstrip_def by (metis prefixI)
qed

lemma lstrip_suffix: "suffix (lstrip s) s"
  by (simp add: lstrip_def suffix_dropWhile)

lemma strip_sublist: "sublist (strip s) s"
proof -
  have "sublist (strip s) (lstrip s)"
    unfolding strip_def using rstrip_prefix by (rule prefix_imp_sublist)
  moreover have "sublist (lstrip s) s"
    using lstrip_suffix by (rule suffix_imp_sublist)
  ultimately show ?thesis by (rule sublist_order.order_trans)
qed

lemma strip_trimmed: "trimmed (strip s)"
proof (cases "strip s = []")
  case True
  then show ?thesis by (simp add: trimmed_def)
next
  case False
  have l: "\<not> is_space (last (strip s))"
  proof -
    from False have ne: "dropWhile is_space (rev (lstrip s)) \<noteq> []"
      by (simp add: strip_def rstrip_def)
    have "last (strip s) = hd (dropWhile is_space (rev (lstrip s)))"
      using ne by (simp add: strip_def rstrip_def last_rev)
    with hd_dropWhile [OF ne] show ?thesis by simp
  qed
  have h: "\<not> is_space (hd (strip s))"
  proof -
    from rstrip_prefix [of "lstrip s"] obtain zs where z: "lstrip s = strip s @ zs"
      by (auto simp: strip_def prefix_def)
    with False have "hd (strip s) = hd (lstrip s)" by simp
    moreover from z False have "dropWhile is_space s \<noteq> []" by (auto simp: lstrip_def)
    ultimately show ?thesis using hd_dropWhile [of is_space s] by (simp add: lstrip_def)
  qed
  from l h show ?thesis by (simp add: trimmed_def)
qed

lemma strip_parts:
  "\<exists>a b. s = a @ strip s @ b \<and> list_all is_space a \<and> list_all is_space b"
proof -
  define a where "a = takeWhile is_space s"
  define b where "b = rev (takeWhile is_space (rev (lstrip s)))"
  have 1: "s = a @ lstrip s"
    by (simp add: a_def lstrip_def)
  have "rev (lstrip s) =
      takeWhile is_space (rev (lstrip s)) @ dropWhile is_space (rev (lstrip s))"
    by simp
  then have "lstrip s = rev (dropWhile is_space (rev (lstrip s))) @ b"
    unfolding b_def by (metis rev_append rev_rev_ident)
  then have 2: "lstrip s = strip s @ b"
    by (simp add: strip_def rstrip_def)
  have 3: "list_all is_space a"
    unfolding a_def by (auto simp: list_all_iff dest: set_takeWhileD)
  have 4: "list_all is_space b"
    unfolding b_def by (auto simp: list_all_iff dest: set_takeWhileD)
  from 1 2 have "s = a @ strip s @ b" by simp
  with 3 4 show ?thesis by blast
qed

lemma field_normalizer_normalized: "ws_normalized (field_normalizer s)"
proof -
  have sub: "sublist (field_normalizer s) (collapse_ws s)"
    unfolding field_normalizer_def by (rule strip_sublist)
  have "set (field_normalizer s) \<subseteq> set (collapse_ws s)"
    using sub by (auto simp: sublist_def)
  with collapse_ws_spaces [of s]
  have a: "list_all (\<lambda>c. is_space c \<longrightarrow> c = SP) (field_normalizer s)"
    by (auto simp: list_all_iff)
  have b: "\<not> sublist [SP, SP] (field_normalizer s)"
    using collapse_ws_single [of s] sub sublist_order.order_trans by blast
  have c: "trimmed (field_normalizer s)"
    unfolding field_normalizer_def by (rule strip_trimmed)
  from a b c show ?thesis by (simp add: ws_normalized_def)
qed

section \<open>Deleting the double slashes\<close>

lemma replace_scan_slashes: "replace_scan (U ''//'') [] s = delete_slash_pairs s"
proof (induction s rule: delete_slash_pairs.induct)
  case 1
  show ?case by simp
next
  case (2 a)
  show ?case by (simp add: U_def)
next
  case (3 a b s)
  then show ?case by (auto simp: U_def)
qed

lemma py_replace_slashes: "py_replace (U ''//'') [] s = delete_slash_pairs s"
  by (simp add: py_replace_def replace_scan_slashes) (simp add: U_def)

lemma clean_match_email:
  "snd (snd (clean_match m)) = strip (delete_slash_pairs (snd (snd m)))"
  by (cases m) (simp add: clean_match_def py_replace_slashes)

lemma delete_slash_pairs_none_left: "\<not> sublist [47, 47] (delete_slash_pairs s)"
proof (induction s rule: delete_slash_pairs.induct)
  case 1
  show ?case by simp
next
  case (2 a)
  show ?case by (simp add: sublist_Cons_right)
next
  case (3 a b s)
  show ?case
  proof (cases "a = 47 \<and> b = 47")
    case True
    with 3 show ?thesis by simp
  next
    case False
    have "\<not> prefix [47, 47] (a # delete_slash_pairs (b # s))"
    proof
      assume p: "prefix [47, 47] (a # delete_slash_pairs (b # s))"
      then have a: "a = 47" by simp
      from p obtain ys where ys: "delete_slash_pairs (b # s) = 47 # ys"
        by (auto simp: prefix_def)
      from a False have "b \<noteq> 47" by simp
      with ys show False by (cases s) (auto split: if_splits)
    qed
    with False 3 show ?thesis by (simp add: sublist_Cons_right)
  qed
qed

lemma delete_slash_pairs_changes:
  "sublist [47, 47] s \<Longrightarrow> delete_slash_pairs s \<noteq> s"
  using delete_slash_pairs_none_left [of s] by auto

lemma delete_slash_pairs_inner:
  "47 \<notin> set a \<Longrightarrow> delete_slash_pairs (a @ [47, 47] @ b) = a @ delete_slash_pairs b"
proof (induction a)
  case Nil
  show ?case by simp
next
  case (Cons x a)
  then have x: "x \<noteq> 47" and IH: "delete_slash_pairs (a @ [47, 47] @ b) = a @ delete_slash_pairs b"
    by auto
  show ?case
  proof (cases a)
    case Nil
    with x show ?thesis by simp
  next
    case (Cons y a')
    with x IH show ?thesis by simp
  qed
qed

section \<open>What a match of the contact pattern consumes\<close>

text \<open>
  When a pattern \<open>p @ q\<close> matches, its tail \<open>q\<close> matches at some later position of the
  text. So the rest that a match leaves is a suffix of the text, a match of the contact
  pattern is never empty (the scan of \<open>findall3\<close> always resumes after it), and a text
  it matches contains \<open>mailto:\<close>.
\<close>

lemma rmatch_here:
  "rmatch q s ms = Some res \<Longrightarrow> \<exists>s' ms'. suffix s' s \<and> rmatch q s' ms' = Some res"
  by blast

lemma rmatch_later:
  "\<exists>s' ms'. suffix s' xs \<and> rmatch q s' ms' = Some res \<Longrightarrow>
   \<exists>s' ms'. suffix s' (x # xs) \<and> rmatch q s' ms' = Some res"
  by (auto simp: suffix_Cons)

lemma rmatch_split:
  "rmatch pq s ms = Some res \<Longrightarrow> pq = p @ q \<Longrightarrow>
   \<exists>s' ms'. suffix s' s \<and> rmatch q s' ms' = Some res"
proof (induction pq s ms arbitrary: p rule: rmatch.induct)
  case (1 s ms)
  then show ?case by (auto intro: rmatch_here)
next
  case (2 c r ms)
  then show ?case by (cases p) (auto intro: rmatch_here)
next
  case (3 c r x xs ms)
  show ?case
  proof (cases p)
    case Nil
    with 3 show ?thesis by (auto intro: rmatch_here)
  next
    case (Cons a p')
    with "3.prems" have "accepts c x" and m: "rmatch r xs ms = Some res" and r: "r = p' @ q"
      by (auto split: if_splits)
    from "3.IH" [OF this] show ?thesis by (rule rmatch_later)
  qed
next
  case (4 k r s ms)
  show ?case
  proof (cases p)
    case Nil
    with 4 show ?thesis by (auto intro: rmatch_here)
  next
    case (Cons a p')
    with "4.prems" have m: "rmatch r s ((k, s) # ms) = Some res" and r: "r = p' @ q"
      by auto
    from "4.IH" [OF this] show ?thesis .
  qed
next
  case (5 c n r ms)
  then show ?case by (cases p) (auto intro: rmatch_here)
next
  case (6 c n r x xs ms)
  show ?case
  proof (cases p)
    case Nil
    with 6 show ?thesis by (auto intro: rmatch_here)
  next
    case (Cons a p')
    with "6.prems" have "accepts c x" and m: "rmatch (MaxRep c n # r) xs ms = Some res"
      and r: "MaxRep c n # r = (MaxRep c n # p') @ q"
      by (auto split: if_splits)
    from "6.IH" [OF this] show ?thesis by (rule rmatch_later)
  qed
next
  case (7 c r ms)
  show ?case
  proof (cases p)
    case Nil
    with 7 show ?thesis by (auto intro: rmatch_here)
  next
    case (Cons a p')
    with "7.prems" have m: "rmatch r [] ms = Some res" and r: "r = p' @ q"
      by auto
    from "7.IH" [OF this] show ?thesis .
  qed
next
  case (8 c r x xs ms)
  show ?case
  proof (cases p)
    case Nil
    with 8 show ?thesis by (auto intro: rmatch_here)
  next
    case (Cons a p')
    with "8.prems" have a: "a = MaxRep c 0" and r: "r = p' @ q" by auto
    show ?thesis
    proof (cases "accepts c x")
      case True
      show ?thesis
      proof (cases "rmatch (MaxRep c 0 # r) xs ms")
        case None
        with True "8.prems"(1) have "rmatch r (x # xs) ms = Some res" by simp
        from "8.IH"(2) [OF True None this r] show ?thesis .
      next
        case (Some y)
        with True "8.prems"(1) have m: "rmatch (MaxRep c 0 # r) xs ms = Some res" by simp
        from r have "MaxRep c 0 # r = (MaxRep c 0 # p') @ q" by simp
        from "8.IH"(1) [OF True m this] show ?thesis by (rule rmatch_later)
      qed
    next
      case False
      with "8.prems"(1) have "rmatch r (x # xs) ms = Some res" by simp
      from "8.IH"(3) [OF False this r] show ?thesis .
    qed
  qed
next
  case (9 c n r ms)
  then show ?case by (cases p) (auto intro: rmatch_here)
next
  case (10 c n r x xs ms)
  show ?case
  proof (cases p)
    case Nil
    with 10 show ?thesis by (auto intro: rmatch_here)
  next
    case (Cons a p')
    with "10.prems" have "accepts c x" and m: "rmatch (MinRep c n # r) xs ms = Some res"
      and r: "MinRep c n # r = (MinRep c n # p') @ q"
      by (auto split: if_splits)
    from "10.IH" [OF this] show ?thesis by (rule rmatch_later)
  qed
next
  case (11 c r ms)
  show ?case
  proof (cases p)
    case Nil
    with 11 show ?thesis by (auto intro: rmatch_here)
  next
    case (Cons a p')
    with "11.prems" have m: "rmatch r [] ms = Some res" and r: "r = p' @ q"
      by auto
    from "11.IH" [OF this] show ?thesis .
  qed
next
  case (12 c r x xs ms)
  show ?case
  proof (cases p)
    case Nil
    with 12 show ?thesis by (auto intro: rmatch_here)
  next
    case (Cons a p')
    with "12.prems" have a: "a = MinRep c 0" and r: "r = p' @ q" by auto
    show ?thesis
    proof (cases "rmatch r (x # xs) ms")
      case (Some y)
      with "12.prems"(1) have "rmatch r (x # xs) ms = Some res" by simp
      from "12.IH"(1) [OF this r] show ?thesis .
    next
      case None
      with "12.prems"(1) have acc: "accepts c x" and m: "rmatch (MinRep c 0 # r) xs ms = Some res"
        by (auto split: if_splits)
      from r have "MinRep c 0 # r = (MinRep c 0 # p') @ q" by simp
      from "12.IH"(2) [OF None acc m this] show ?thesis by (rule rmatch_later)
    qed
  qed
qed

lemma rmatch_append:
  "rmatch (p @ q) s ms = Some res \<Longrightarrow> \<exists>s' ms'. suffix s' s \<and> rmatch q s' ms' = Some res"
  by (rule rmatch_split) simp_all

lemma rmatch_suffix: "rmatch p s ms = Some (r, ms') \<Longrightarrow> suffix r s"
  using rmatch_append [of p "[]" s ms "(r, ms')"] by auto

lemma rmatch_lit: "rmatch (lit l @ q) s ms = Some res \<Longrightarrow> prefix (U l) s"
proof (induction l arbitrary: s)
  case Nil
  show ?case by (simp add: U_def)
next
  case (Cons c l)
  from Cons.prems obtain xs where s: "s = of_char c # xs" and r: "rmatch (lit l @ q) xs ms = Some res"
    by (cases s) (auto simp: lit_def split: if_splits)
  from Cons.IH [OF r] s show ?case by (simp add: U_def)
qed

lemma contact_match_consumes:
  assumes "rmatch contact_pattern s ms = Some (r, ms')"
  shows "length r < length s"
proof -
  define q where "q = tl contact_pattern"
  have p: "contact_pattern = One (Chr 60) # q"
    by (simp add: q_def contact_pattern_def lit_def)
  from assms have "rmatch (One (Chr 60) # q) s ms = Some (r, ms')"
    by (simp only: p)
  then obtain xs where s: "s = 60 # xs" and m: "rmatch q xs ms = Some (r, ms')"
    by (cases s) (auto split: if_splits)
  from rmatch_suffix [OF m] have "length r \<le> length xs" by (rule suffix_length_le)
  with s show ?thesis by simp
qed

lemma contact_match_mailto:
  assumes "rmatch contact_pattern t ms = Some res"
  shows "sublist (U ''mailto:'') t"
proof -
  define P where "P =
     lit ''<div'' @ ws_plus @ lit ''class=\"member_name\">'' @ any_lazy @
     lit ''<a'' @ ws_plus @ lit ''href=\"content_teacher_detail.php?teacher_rkey='' @ any_lazy @
     lit ''\">'' @ ws_star @ group_lazy 1 @ ws_star @ lit ''</a>'' @ any_lazy @
     lit ''<div'' @ ws_plus @ lit ''class=\"member_info_content\">'' @ ws_star @
     group_lazy 2 @ ws_star @ lit ''</div>'' @ any_lazy @
     lit ''<a'' @ ws_plus"
  have "contact_pattern = P @ (lit ''href=\"mailto:'' @ (group_lazy 3 @ lit ''\">''))"
    by (simp add: contact_pattern_def P_def)
  with assms rmatch_append obtain s' ms' where
    suf: "suffix s' t" and m: "rmatch (lit ''href=\"mailto:'' @ (group_lazy 3 @ lit ''\">'')) s' ms' = Some res"
    by metis
  from rmatch_lit [OF m] have "prefix (U ''href=\"mailto:'') s'" .
  then have "sublist (U ''href=\"mailto:'') t"
    using suf by (meson prefix_imp_sublist suffix_imp_sublist sublist_order.order_trans)
  moreover have "sublist (U ''mailto:'') (U ''href=\"mailto:'')"
    by (simp add: U_def sublist_Cons_right)
  ultimately show ?thesis
    using sublist_order.order_trans by blast
qed

lemma no_mailto_no_match:
  assumes "\<not> sublist (U ''mailto:'') html"
  shows "\<not> contains_match contact_pattern html"
proof
  assume "contains_match contact_pattern html"
  then obtain t res where t: "suffix t html" and m: "rmatch contact_pattern t [] = Some res"
    by (auto simp: contains_match_def list_ex_iff)
  from contact_match_mailto [OF m] have "sublist (U ''mailto:'') t" .
  with t have "sublist (U ''mailto:'') html"
    by (meson suffix_imp_sublist sublist_order.order_trans)
  with assms show False by simp
qed

section \<open>Pages without a block, and the fetch\<close>

lemma findall3_no_match: "\<not> contains_match p s \<Longrightarrow> findall3 p s = []"
proof (induction s)
  case Nil
  then have "rmatch p [] [] = None"
    by (cases "rmatch p [] []") (auto simp: contains_match_def)
  then show ?case by (subst findall3.simps) simp
next
  case (Cons x xs)
  from Cons.prems have n: "rmatch p (x # xs) [] = None"
    by (cases "rmatch p (x # xs) []") (auto simp: contains_match_def list_ex_iff)
  from Cons.prems have r: "\<not> contains_match p xs"
    by (auto simp: contains_match_def list_ex_iff suffix_Cons)
  from Cons.IH [OF r] n show ?case by (subst findall3.simps) simp
qed

lemma scrape_contacts_ok:
  "net URL = Response code html \<Longrightarrow> \<not> (400 \<le> code \<and> code < 600) \<Longrightarrow>
   scrape_contacts net = (extract_contacts html, [HttpGet URL])"
  by (auto simp: scrape_contacts_def)

lemma scrape_contacts_fetches_URL: "fetched_urls (snd (scrape_contacts net)) = [URL]"
  by (auto simp: scrape_contacts_def fetched_urls_def split: response.splits)

lemma fetch_button_fetches_URL: "fetched_urls (snd (fetch_button eaw net g)) = [URL]"
  using scrape_contacts_fetches_URL [of net]
  by (cases "scrape_contacts net") (simp add: fetch_button_def)

section \<open>The extractor on the sample pages\<close>

lemmas pattern_defs = contact_pattern_def lit_def ws_plus_def ws_star_def any_lazy_def group_lazy_def

lemma findall_jane:
  "findall3 contact_pattern html_jane =
     [(U ''Jane   Doe'', U ''Associate  Professor'', U ''//jane@example.edu'')]"
  by (simp add: findall3.simps group_text_def html_jane_def U_def pattern_defs is_space_def)

lemma findall_ann:
  "findall3 contact_pattern html_ann =
     [(U ''Ann'' @ [9, SP] @ U ''Lee'', U ''Professor'' @ [NL, 9] @ U ''and Chair'', U ''ann@example.edu'')]"
  by (simp add: findall3.simps group_text_def html_ann_def U_def pattern_defs is_space_def NL_def SP_def)

lemma findall_slash:
  "findall3 contact_pattern html_slash =
     [(U ''Bo'', U ''Lecturer'', [SP] @ U ''b//o@ex//ample.edu'' @ [9, SP])]"
  by (simp add: findall3.simps group_text_def html_slash_def U_def pattern_defs is_space_def SP_def)

lemma no_match_broken: "\<not> contains_match contact_pattern html_broken"
  by (simp add: contains_match_def html_broken_def U_def pattern_defs is_space_def)

lemma no_match_empty: "\<not> contains_match contact_pattern []"
  by (simp add: contains_match_def pattern_defs)

lemma extract_jane:
  "extract_contacts html_jane =
     [(U ''Jane Doe'', U ''Associate  Professor'', U ''jane@example.edu'')]"
  by (simp add: extract_contacts_map findall_jane clean_match_def re_sub_collapse py_replace_slashes)
     (simp add: U_def strip_def lstrip_def rstrip_def is_space_def SP_def)

lemma extract_ann:
  "extract_contacts html_ann =
     [(U ''Ann Lee'', U ''Professor'' @ [NL, 9] @ U ''and Chair'', U ''ann@example.edu'')]"
  by (simp add: extract_contacts_map findall_ann clean_match_def re_sub_collapse py_replace_slashes)
     (simp add: U_def strip_def lstrip_def rstrip_def is_space_def SP_def NL_def)

section \<open>The claims about the extractor\<close>

text \<open>
  C1, as the code has it. For every page, the name of each emitted record is the
  captured name put through the Field Normalizer: whitespace runs collapsed to one
  space, then stripped, so it is normalized. The title of each record is the captured
  title stripped of leading and trailing whitespace and nothing more: it is trimmed,
  and the whitespace inside it stays as captured.
\<close>

theorem name_collapsed_title_stripped:
  "map fst (extract_contacts html) =
     map (\<lambda>m. field_normalizer (fst m)) (findall3 contact_pattern html)
   \<and> map (\<lambda>c. fst (snd c)) (extract_contacts html) =
     map (\<lambda>m. strip (fst (snd m))) (findall3 contact_pattern html)
   \<and> list_all (\<lambda>c. ws_normalized (fst c) \<and> trimmed (fst (snd c))) (extract_contacts html)"
  by (simp add: extract_contacts_map clean_match_name clean_match_title list_all_iff
      field_normalizer_normalized strip_trimmed)

theorem name_collapsed_title_stripped_witness:
  "map fst (extract_contacts html_ann) = [U ''Ann Lee'']
   \<and> map (\<lambda>c. fst (snd c)) (extract_contacts html_ann) = [U ''Professor'' @ [NL, 9] @ U ''and Chair'']"
proof -
  from name_collapsed_title_stripped [of html_ann]
  have "map fst (extract_contacts html_ann) =
      [field_normalizer (U ''Ann'' @ [9, SP] @ U ''Lee'')]"
    and "map (\<lambda>c. fst (snd c)) (extract_contacts html_ann) =
      [strip (U ''Professor'' @ [NL, 9] @ U ''and Chair'')]"
    by (simp_all add: findall_ann)
  then show ?thesis
    by (simp add: field_normalizer_def U_def strip_def lstrip_def rstrip_def is_space_def SP_def NL_def)
qed

text \<open>
  The claim as written fails on \<open>html_ann\<close>: the emitted title keeps the newline and the
  tab of the page, so not every emitted record has both fields normalized.
\<close>

theorem title_not_collapsed_counterexample:
  "\<not> list_all fields_normalized (extract_contacts html_ann)"
  by (simp add: extract_ann fields_normalized_def ws_normalized_def)
     (simp add: U_def is_space_def SP_def NL_def)

text \<open>
  C4, as the code has it. On the page of the example the extractor yields exactly one
  record: the name \<open>Jane Doe\<close>, the title with its two spaces kept, and the address
  without the two slashes. The same holds through \<open>scrape_contacts\<close> when the fetch
  answers 200 with that page.
\<close>

theorem jane_example:
  "extract_contacts html_jane =
     [(U ''Jane Doe'', U ''Associate  Professor'', U ''jane@example.edu'')]
   \<and> scrape_contacts (\<lambda>u. Response 200 html_jane) =
     ([(U ''Jane Doe'', U ''Associate  Professor'', U ''jane@example.edu'')], [HttpGet URL])"
  by (simp add: scrape_contacts_ok [of _ 200 html_jane] extract_jane)

text \<open>The record of the claim, with a single space in the title, is not what is yielded.\<close>

theorem jane_example_counterexample:
  "extract_contacts html_jane \<noteq>
     [(U ''Jane Doe'', U ''Associate Professor'', U ''jane@example.edu'')]"
  by (simp add: extract_jane) (simp add: U_def)

text \<open>
  C7. On a page in which the contact pattern matches nowhere the extraction yields the
  empty list, and so does \<open>scrape_contacts\<close> whenever the fetch answers with that page,
  whatever the status code. Every page without the text \<open>mailto:\<close> is such a page, and
  so is the empty page. The extraction is a total function: it has no error to raise.
\<close>

theorem no_blocks_no_contacts:
  "(\<not> contains_match contact_pattern html \<longrightarrow>
      extract_contacts html = []
      \<and> (\<forall>net code. net URL = Response code html \<longrightarrow> fst (scrape_contacts net) = []))
   \<and> (\<not> sublist (U ''mailto:'') html \<longrightarrow> \<not> contains_match contact_pattern html)
   \<and> extract_contacts [] = []"
proof (intro conjI impI allI)
  assume "\<not> sublist (U ''mailto:'') html"
  then show "\<not> contains_match contact_pattern html"
    by (rule no_mailto_no_match)
next
  assume n: "\<not> contains_match contact_pattern html"
  then show e: "extract_contacts html = []"
    by (simp add: extract_contacts_map findall3_no_match)
  fix net code assume "net URL = Response code html"
  with e show "fst (scrape_contacts net) = []"
    by (simp add: scrape_contacts_def)
next
  show "extract_contacts [] = []"
    by (simp add: extract_contacts_map findall3_no_match no_match_empty)
qed

theorem no_blocks_no_contacts_witness:
  "extract_contacts html_broken = []
   \<and> scrape_contacts (\<lambda>u. Response 200 html_broken) = ([], [HttpGet URL])"
proof -
  from no_blocks_no_contacts [of html_broken] no_match_broken
  have "extract_contacts html_broken = []" by blast
  then show ?thesis by (simp add: scrape_contacts_ok [of _ 200 html_broken])
qed

text \<open>
  C9, on the code. After the user has replaced the content of the entry by another
  URL, the button still fetches the constant \<open>URL\<close> and only that, for every network
  and table: \<open>scrape_contacts\<close> never reads the entry.
\<close>

theorem fetch_ignores_url_entry:
  "url_entry (edit_url other_url init_gui) = other_url
   \<and> other_url \<noteq> URL
   \<and> fetched_urls (snd (fetch_button eaw net (edit_url other_url init_gui))) = [URL]"
  by (simp add: fetch_button_fetches_URL edit_url_def) (simp add: other_url_def URL_def U_def)

text \<open>
  C10. The email of each emitted record is the captured text with every \<open>//\<close> deleted,
  then stripped: it neither starts nor ends with whitespace, and \<open>strip\<close> takes away
  nothing but whitespace at the two ends. \<open>str.replace\<close> deletes the pairs from left to
  right wherever they stand: a pair after a slash-free prefix goes as well as a leading
  one, no \<open>//\<close> is left in the result, and every text that contains \<open>//\<close> is changed.
\<close>

theorem email_slash_pairs_deleted:
  "map (\<lambda>c. snd (snd c)) (extract_contacts html) =
     map (\<lambda>m. strip (delete_slash_pairs (snd (snd m)))) (findall3 contact_pattern html)
   \<and> list_all (\<lambda>c. trimmed (snd (snd c))) (extract_contacts html)
   \<and> (\<exists>a b. e = a @ strip e @ b \<and> list_all is_space a \<and> list_all is_space b)
   \<and> trimmed (strip e)
   \<and> py_replace (U ''//'') [] e = delete_slash_pairs e
   \<and> \<not> sublist (U ''//'') (delete_slash_pairs e)
   \<and> (sublist (U ''//'') e \<longrightarrow> delete_slash_pairs e \<noteq> e)
   \<and> (47 \<notin> set a \<longrightarrow> delete_slash_pairs (a @ U ''//'' @ b) = a @ delete_slash_pairs b)"
proof -
  have u: "U ''//'' = [47, 47]" by (simp add: U_def)
  have t: "list_all (\<lambda>c. trimmed (snd (snd c))) (extract_contacts html)"
    by (simp add: extract_contacts_map clean_match_email list_all_iff strip_trimmed)
  show ?thesis
    unfolding u
    using delete_slash_pairs_none_left [of e] delete_slash_pairs_changes [of e]
      delete_slash_pairs_inner [of a b] py_replace_slashes [of e] strip_parts [of e]
      strip_trimmed [of e] t
    by (simp add: extract_contacts_map clean_match_email u)
qed

theorem email_slash_pairs_deleted_witness:
  "map (\<lambda>c. snd (snd c)) (extract_contacts html_slash) = [U ''bo@example.edu'']
   \<and> strip ([SP] @ U ''bo@example.edu'' @ [9, SP]) = U ''bo@example.edu''
   \<and> delete_slash_pairs (U ''b//o@ex//ample.edu'') \<noteq> U ''b//o@ex//ample.edu''
   \<and> delete_slash_pairs (U ''b'' @ U ''//'' @ U ''o@example.edu'') = U ''bo@example.edu''"
proof -
  note t = email_slash_pairs_deleted [of html_slash "U ''b//o@ex//ample.edu''" "U ''b''" "U ''o@example.edu''"]
  have s: "sublist (U ''//'') (U ''b//o@ex//ample.edu'')"
    by (simp add: U_def sublist_Cons_right)
  have n: "47 \<notin> set (U ''b'')"
    by (simp add: U_def)
  from t have "map (\<lambda>c. snd (snd c)) (extract_contacts html_slash) =
      [strip (delete_slash_pairs ([SP] @ U ''b//o@ex//ample.edu'' @ [9, SP]))]"
    by (simp add: findall_slash)
  then have a: "map (\<lambda>c. snd (snd c)) (extract_contacts html_slash) = [U ''bo@example.edu'']"
    by (simp add: U_def strip_def lstrip_def rstrip_def is_space_def SP_def)
  have a': "strip ([SP] @ U ''bo@example.edu'' @ [9, SP]) = U ''bo@example.edu''"
    by (simp add: U_def strip_def lstrip_def rstrip_def is_space_def SP_def)
  from t s have b: "delete_slash_pairs (U ''b//o@ex//ample.edu'') \<noteq> U ''b//o@ex//ample.edu''"
    by blast
  from t n have "delete_slash_pairs (U ''b'' @ U ''//'' @ U ''o@example.edu'') =
      U ''b'' @ delete_slash_pairs (U ''o@example.edu'')"
    by blast
  then have c: "delete_slash_pairs (U ''b'' @ U ''//'' @ U ''o@example.edu'') = U ''bo@example.edu''"
    by (simp add: U_def)
  from a a' b c show ?thesis by blast
qed

end
